theory Spec2Isabelle
  imports Main "HOL-Library.Word" "HOL-Library.Char_ord" "HOL-Library.List_Lexorder"
    "HOL-Library.Multiset"
begin

unbundle bit_operations_syntax

section \<open>The LPSS network monitor (src/src/main.cpp)\<close>

text \<open>
  The monitor keeps one \<open>MonitorState\<close>: two \<open>std::unordered_map\<close>s keyed by the
  low 48 bits of a node's GUID, and the \<open>running\<close> flag. Two listener loops write it,
  the console reads it (\<open>list\<close>, \<open>info\<close>, \<open>graph\<close>).

  Modelling decisions.
  \<^item> An \<open>unordered_map\<close> is a map \<open>u64 \<rightharpoonup> 'v\<close>. The order in which a range-for visits
    its entries is left open by the language, so every loop over a map takes the list
    of keys in visiting order as an argument (\<open>ks\<close>); \<open>traversal ks m\<close> says that the
    list visits every key of \<open>m\<close> once.
  \<open>operator[]\<close> on a missing key stores a default value: \<open>um_index\<close>.
  \<^item> A \<open>std::set<std::string>\<close> is the ascending list of its elements without
    repetition; \<open>std::less<std::string>\<close> compares bytes lexicographically, which is the
    order of \<open>char list\<close> from \<open>Char_ord\<close> and \<open>List_Lexorder\<close>.
  \<^item> The types of \<open>rmvl/lpss.hpp\<close> are not part of the repository. Of \<open>Guid\<close>,
    \<open>RNDPMessage\<close> and \<open>REDPMessage\<close> only the members that main.cpp reads are
    modelled; both \<open>deserialize\<close> functions are parameters of the listeners.
  \<^item> Every \<open>fprintf\<close> of the graph export is one \<open>dot_stmt\<close>; \<open>render\<close> gives its
    bytes, \<open>%s\<close> of \<open>c_str()\<close> stopping at the first NUL and \<open>%lx\<close> printing lower-case
    hexadecimal without leading zeros.
\<close>

subsection \<open>Data\<close>

type_synonym u64 = "64 word"

record Guid =
  full :: u64

record RNDPMessage =
  guid :: Guid
  name :: string

datatype REDP_Type = Writer | Reader

record REDPMessage =
  endpoint_guid :: Guid
  topic :: string
  type :: REDP_Type

record EndpointInfo =
  topic :: string
  is_pub :: bool

record MonitorState =
  nodes :: "u64 \<rightharpoonup> string"
  topics :: "u64 \<rightharpoonup> EndpointInfo list"
  running :: bool

text \<open>\<open>MonitorState state;\<close> in \<open>main\<close>: both maps empty, \<open>running{true}\<close>.\<close>

definition init_state :: MonitorState where
  "init_state = \<lparr>nodes = Map.empty, topics = Map.empty, running = True\<rparr>"

definition get_prefix :: "Guid \<Rightarrow> u64" where
  "get_prefix g = full g AND 0xFFFFFFFFFFFF"

subsection \<open>unordered_map\<close>

definition traversal :: "'k list \<Rightarrow> ('k \<rightharpoonup> 'v) \<Rightarrow> bool" where
  "traversal ks m = (distinct ks \<and> set ks = dom m)"

text \<open>The entries a range-for over \<open>m\<close> binds, in the visiting order \<open>ks\<close>.\<close>

definition um_items :: "'k list \<Rightarrow> ('k \<rightharpoonup> 'v) \<Rightarrow> ('k \<times> 'v) list" where
  "um_items ks m = List.map_filter (\<lambda>k. map_option (Pair k) (m k)) ks"

text \<open>\<open>m[k]\<close>: the mapped value, after storing the default \<open>d\<close> when \<open>k\<close> is missing.\<close>

definition um_index :: "('k \<rightharpoonup> 'v) \<Rightarrow> 'k \<Rightarrow> 'v \<Rightarrow> ('k \<rightharpoonup> 'v) \<times> 'v" where
  "um_index m k d = (case m k of None \<Rightarrow> (m(k \<mapsto> d), d) | Some v \<Rightarrow> (m, v))"

subsection \<open>The listeners\<close>

text \<open>
  The test both listeners make before decoding: \<open>data.size() >= 14 && data[0] == tag\<close>.
  \<open>&&\<close> reads \<open>data[0]\<close> only when the size test passed.
\<close>

definition accepts :: "char \<Rightarrow> string \<Rightarrow> bool" where
  "accepts tag data = (length data \<ge> 14 \<and> data ! 0 = tag)"

text \<open>One turn of the body of \<open>task_nodes\<close>, on the datagram that \<open>sock.read()\<close> returned.\<close>

definition task_nodes_body :: "(string \<Rightarrow> RNDPMessage) \<Rightarrow> string \<Rightarrow> MonitorState \<Rightarrow> MonitorState" where
  "task_nodes_body deserialize data state =
     (if accepts (CHR ''N'') data then
        let msg = deserialize data
        in state\<lparr>nodes := (nodes state)(get_prefix (guid msg) \<mapsto> name msg)\<rparr>
      else state)"

text \<open>
  The loop \<open>while (state->running)\<close> over the datagrams that arrive, in order. When no
  datagram is left the read blocks; the state is then the one returned here.
\<close>

fun task_nodes :: "(string \<Rightarrow> RNDPMessage) \<Rightarrow> string list \<Rightarrow> MonitorState \<Rightarrow> MonitorState" where
  "task_nodes deserialize [] state = state"
| "task_nodes deserialize (data # rest) state =
     (if running state then task_nodes deserialize rest (task_nodes_body deserialize data state)
      else state)"

text \<open>The scan \<open>for (auto &ep : list) if (...) exists = true;\<close>, \<open>ex\<close> being \<open>exists\<close>.\<close>

fun scan_exists :: "string \<Rightarrow> bool \<Rightarrow> EndpointInfo list \<Rightarrow> bool \<Rightarrow> bool" where
  "scan_exists t r [] ex = ex"
| "scan_exists t r (ep # eps) ex =
     scan_exists t r eps (if topic ep = t \<and> is_pub ep = r then True else ex)"

text \<open>One turn of the body of \<open>task_topics\<close>. \<open>list\<close> is a reference into the map, so the
  \<open>push_back\<close> is a store at the same key.\<close>

definition task_topics_body :: "(string \<Rightarrow> REDPMessage) \<Rightarrow> string \<Rightarrow> MonitorState \<Rightarrow> MonitorState" where
  "task_topics_body deserialize data state =
     (if accepts (CHR ''E'') data then
        let msg = deserialize data;
            (tm, list) = um_index (topics state) (get_prefix (endpoint_guid msg)) [];
            pub = (type msg = Writer);
            exists = scan_exists (REDPMessage.topic msg) pub list False;
            list' = (if \<not> exists then list @ [\<lparr>topic = REDPMessage.topic msg, is_pub = pub\<rparr>]
                     else list)
        in state\<lparr>topics := tm(get_prefix (endpoint_guid msg) \<mapsto> list')\<rparr>
      else state)"

fun task_topics :: "(string \<Rightarrow> REDPMessage) \<Rightarrow> string list \<Rightarrow> MonitorState \<Rightarrow> MonitorState" where
  "task_topics deserialize [] state = state"
| "task_topics deserialize (data # rest) state =
     (if running state then task_topics deserialize rest (task_topics_body deserialize data state)
      else state)"

text \<open>The record the endpoint listener stores for a decoded announcement.\<close>

definition endpoint_of :: "REDPMessage \<Rightarrow> EndpointInfo" where
  "endpoint_of msg = \<lparr>topic = REDPMessage.topic msg, is_pub = (type msg = Writer)\<rparr>"

subsection \<open>Formatted output\<close>

definition dq :: char where "dq = CHR 0x22"
definition nl :: char where "nl = CHR 0x0A"

text \<open>\<open>%s\<close> applied to \<open>s.c_str()\<close>: the bytes before the first NUL.\<close>

definition c_str :: "string \<Rightarrow> string" where
  "c_str s = takeWhile (\<lambda>c. c \<noteq> CHR 0x00) s"

definition hex_digit :: "nat \<Rightarrow> char" where
  "hex_digit d = ''0123456789abcdef'' ! d"

fun lx_nat :: "nat \<Rightarrow> string" where
  "lx_nat n = (if n < 16 then [hex_digit n] else lx_nat (n div 16) @ [hex_digit (n mod 16)])"

declare lx_nat.simps [simp del]

text \<open>\<open>%lx\<close> of a 64-bit value.\<close>

definition lx :: "u64 \<Rightarrow> string" where
  "lx w = lx_nat (unat w)"

subsection \<open>The graph export: \<open>generate_graph\<close>\<close>

datatype vertex = NodeV u64 | TopicV string

text \<open>
  A vertex declaration carries the vertex, its label, its shape and its fill colour;
  an edge its source, its target, its colour and its label.
\<close>

datatype dot_stmt =
    Verbatim string
  | VertexDecl vertex string string string
  | EdgeDecl vertex vertex string string

fun vertex_id :: "vertex \<Rightarrow> string" where
  "vertex_id (NodeV p) = ''n'' @ lx p"
| "vertex_id (TopicV t) = [dq] @ ''t_'' @ c_str t @ [dq]"

fun render :: "dot_stmt \<Rightarrow> string" where
  "render (Verbatim s) = s"
| "render (VertexDecl v l sh fc) =
     ''  '' @ vertex_id v @ '' [label='' @ [dq] @ c_str l @ [dq] @ '', shape='' @ sh @
     '', style=filled, fillcolor='' @ fc @ ''];'' @ [nl]"
| "render (EdgeDecl a b col l) =
     ''  '' @ vertex_id a @ '' -> '' @ vertex_id b @ '' [color='' @ col @ '', label='' @
     [dq] @ l @ [dq] @ ''];'' @ [nl]"

definition header :: "dot_stmt list" where
  "header = [Verbatim (''digraph G {'' @ [nl]),
             Verbatim (''  rankdir=LR;'' @ [nl]),
             Verbatim (''  node [fontname='' @ [dq] @ ''sans-serif'' @ [dq] @
                       '', fontsize=10];'' @ [nl, nl])]"

definition footer :: "dot_stmt list" where
  "footer = [Verbatim (''}'' @ [nl])]"

definition topic_vertex :: "string \<Rightarrow> dot_stmt" where
  "topic_vertex t = VertexDecl (TopicV t) t ''ellipse'' ''lightyellow''"

definition node_vertex :: "u64 \<Rightarrow> string \<Rightarrow> dot_stmt" where
  "node_vertex prefix nm = VertexDecl (NodeV prefix) nm ''box'' ''lightblue''"

definition edge_stmt :: "u64 \<Rightarrow> EndpointInfo \<Rightarrow> dot_stmt" where
  "edge_stmt prefix ep =
     (if is_pub ep then EdgeDecl (NodeV prefix) (TopicV (topic ep)) ''blue'' ''pub''
      else EdgeDecl (TopicV (topic ep)) (NodeV prefix) ''darkgreen'' ''sub'')"

text \<open>The first loop: \<open>all_topics.insert(ep.topic)\<close> for every record of every list.\<close>

definition collect_topics :: "(u64 \<times> EndpointInfo list) list \<Rightarrow> string list" where
  "collect_topics items =
     fold (\<lambda>(p, eps). fold (\<lambda>ep. insort_insert (topic ep)) eps) items []"

text \<open>
  The loop over \<open>state.nodes\<close>. \<open>state.topics[prefix]\<close> is reached only when
  \<open>state.topics.count(prefix)\<close> is not zero.
\<close>

fun graph_nodes :: "(u64 \<times> string) list \<Rightarrow> MonitorState \<Rightarrow> dot_stmt list \<Rightarrow>
    MonitorState \<times> dot_stmt list" where
  "graph_nodes [] state out = (state, out)"
| "graph_nodes ((prefix, nm) # rest) state out =
     (if topics state prefix \<noteq> None then
        let (tm, eps) = um_index (topics state) prefix []
        in graph_nodes rest (state\<lparr>topics := tm\<rparr>)
             (out @ [node_vertex prefix nm] @ map (edge_stmt prefix) eps)
      else graph_nodes rest state (out @ [node_vertex prefix nm]))"

text \<open>Everything written between \<open>fopen\<close> and \<open>fclose\<close>; \<open>kt\<close> and \<open>kn\<close> are the visiting
  orders of \<open>state.topics\<close> and \<open>state.nodes\<close>.\<close>

definition graph_stmts :: "u64 list \<Rightarrow> u64 list \<Rightarrow> MonitorState \<Rightarrow> MonitorState \<times> dot_stmt list" where
  "graph_stmts kt kn state =
     (let all_topics = collect_topics (um_items kt (topics state));
          (state', out) = graph_nodes (um_items kn (nodes state)) state
                            (header @ map topic_vertex all_topics)
      in (state', out @ footer))"

text \<open>What a console command does besides changing the state: the lines it prints, the
  bytes it leaves in \<open>lpss_graph.dot\<close> (\<open>None\<close>: the file was not opened), the commands it
  hands to \<open>system\<close>.\<close>

record Effects =
  printed :: "string list"
  dotfile :: "string option"
  shell :: "string list"

definition no_effects :: Effects where
  "no_effects = \<lparr>printed = [], dotfile = None, shell = []\<rparr>"

definition rasterize :: string where
  "rasterize = ''dot -Tpng lpss_graph.dot -o lpss_graph.png && xdg-open lpss_graph.png > /dev/null 2>&1 &''"

text \<open>\<open>fopen_ok\<close> says whether \<open>fopen("lpss_graph.dot", "w")\<close> returned a stream.\<close>

definition generate_graph :: "bool \<Rightarrow> u64 list \<Rightarrow> u64 list \<Rightarrow> MonitorState \<Rightarrow> MonitorState \<times> Effects" where
  "generate_graph fopen_ok kt kn state =
     (if \<not> fopen_ok then (state, no_effects)
      else
        let (state', stmts) = graph_stmts kt kn state
        in (state', \<lparr>printed = [], dotfile = Some (concat (map render stmts)),
                     shell = [rasterize]\<rparr>))"

text \<open>Reading the output back: the vertices a statement names, and the topic whose
  vertex it declares.\<close>

fun stmt_vertices :: "dot_stmt \<Rightarrow> vertex list" where
  "stmt_vertices (Verbatim s) = []"
| "stmt_vertices (VertexDecl v l sh fc) = [v]"
| "stmt_vertices (EdgeDecl a b col l) = [a, b]"

definition mentions :: "vertex \<Rightarrow> dot_stmt \<Rightarrow> bool" where
  "mentions v s = (v \<in> set (stmt_vertices s))"

fun declared_topic :: "dot_stmt \<Rightarrow> string option" where
  "declared_topic (VertexDecl (TopicV t) l sh fc) = Some t"
| "declared_topic s = None"

fun is_edge :: "dot_stmt \<Rightarrow> bool" where
  "is_edge (EdgeDecl a b col l) = True"
| "is_edge s = False"

subsection \<open>The console command \<open>info\<close>\<close>

definition info_line :: "EndpointInfo \<Rightarrow> string" where
  "info_line ep = ''  ['' @ (if is_pub ep then ''PUB'' else ''SUB'') @ ''] '' @ c_str (topic ep) @ [nl]"

text \<open>
  \<open>main\<close> reads a line into \<open>char buf[256]\<close> and splits it by
  \<open>sscanf(buf, "%s %s", cmd, arg)\<close> into \<open>char cmd[64], arg[64]\<close>. \<open>%s\<close> has no width:
  it copies the whole token and a closing NUL, so a token of 64 bytes or more is written
  past the end of the buffer. The behaviour of the program is then undefined; the model
  stops with a \<open>fault\<close>.
\<close>

datatype fault = BufferOverflow

text \<open>The loop over \<open>state.nodes\<close> in the \<open>info\<close> branch of \<open>main\<close>; \<open>arg\<close> is the C string
  that \<open>sscanf\<close> stored (the branch is reached only when it fitted), \<open>name == arg\<close> compares
  the whole of \<open>name\<close> with it. The loop has no \<open>break\<close>, and \<open>state.topics[p]\<close> is not
  guarded.\<close>

fun info_loop :: "string \<Rightarrow> (u64 \<times> string) list \<Rightarrow> MonitorState \<Rightarrow> string list \<Rightarrow>
    MonitorState \<times> string list" where
  "info_loop arg [] state out = (state, out)"
| "info_loop arg ((p, nm) # rest) state out =
     (if nm = arg then
        let (tm, eps) = um_index (topics state) p []
        in info_loop arg rest (state\<lparr>topics := tm\<rparr>) (out @ map info_line eps)
      else info_loop arg rest state out)"

text \<open>The command \<open>info <arg>\<close>: \<open>arg\<close> is the second token of the line. It goes through
  \<open>arg[64]\<close> first, then the loop runs.\<close>

definition console_info :: "string \<Rightarrow> u64 list \<Rightarrow> MonitorState \<Rightarrow> fault + MonitorState \<times> Effects" where
  "console_info arg kn state =
     (if length arg \<ge> 64 then Inl BufferOverflow
      else
        let (state', out) = info_loop arg (um_items kn (nodes state)) state []
        in Inr (state', \<lparr>printed = out, dotfile = None, shell = []\<rparr>))"

text \<open>The endpoint list of a prefix, empty when the prefix has none.\<close>

definition endpoints_of :: "MonitorState \<Rightarrow> u64 \<Rightarrow> EndpointInfo list" where
  "endpoints_of state p = (case topics state p of None \<Rightarrow> [] | Some eps \<Rightarrow> eps)"

text \<open>The specification's reading of \<open>info\<close>, for comparison: the records of the first
  node whose name is \<open>arg\<close>, and of no other.\<close>

definition spec_info_first :: "string \<Rightarrow> u64 list \<Rightarrow> MonitorState \<Rightarrow> string list" where
  "spec_info_first arg kn state =
     (case find (\<lambda>(p, nm). nm = arg) (um_items kn (nodes state)) of
        None \<Rightarrow> []
      | Some (p, nm) \<Rightarrow> map info_line (endpoints_of state p))"

subsection \<open>Announcements\<close>

text \<open>The announcements a listener decodes out of the datagrams \<open>ds\<close>, in the order of
  arrival: those that pass its test.\<close>

definition node_announcements :: "(string \<Rightarrow> RNDPMessage) \<Rightarrow> string list \<Rightarrow> RNDPMessage list" where
  "node_announcements deserialize ds = map deserialize (filter (accepts (CHR ''N'')) ds)"

definition endpoint_announcements :: "(string \<Rightarrow> REDPMessage) \<Rightarrow> string list \<Rightarrow> REDPMessage list" where
  "endpoint_announcements deserialize ds = map deserialize (filter (accepts (CHR ''E'')) ds)"

text \<open>The records announced for the prefix \<open>p\<close>.\<close>

definition announced_endpoints :: "u64 \<Rightarrow> REDPMessage list \<Rightarrow> EndpointInfo list" where
  "announced_endpoints p msgs =
     map endpoint_of (filter (\<lambda>m. get_prefix (endpoint_guid m) = p) msgs)"

subsection \<open>The two listeners side by side\<close>

text \<open>
  Each listener touches the state only inside its \<open>std::lock_guard\<close> block, and both
  blocks take the same mutex, so the blocks of the two listeners run one after another
  in some order. A \<open>locked_step\<close> is one such block, with the datagram it works on;
  \<open>run_step\<close> runs it.
\<close>

datatype locked_step = NodeStep string | EndpointStep string

fun run_step :: "(string \<Rightarrow> RNDPMessage) \<Rightarrow> (string \<Rightarrow> REDPMessage) \<Rightarrow> locked_step \<Rightarrow>
    MonitorState \<Rightarrow> MonitorState" where
  "run_step dn de (NodeStep data) state = task_nodes_body dn data state"
| "run_step dn de (EndpointStep data) state = task_topics_body de data state"

fun node_data :: "locked_step list \<Rightarrow> string list" where
  "node_data [] = []"
| "node_data (NodeStep data # zs) = data # node_data zs"
| "node_data (EndpointStep data # zs) = node_data zs"

fun endpoint_data :: "locked_step list \<Rightarrow> string list" where
  "endpoint_data [] = []"
| "endpoint_data (NodeStep data # zs) = endpoint_data zs"
| "endpoint_data (EndpointStep data # zs) = data # endpoint_data zs"

subsection \<open>The node listener keeps the last name of every prefix\<close>

lemma get_prefix_48: "unat (get_prefix g) < 2 ^ 48"
proof -
  have "get_prefix g \<le> 0xFFFFFFFFFFFF"
    unfolding get_prefix_def by (rule word_and_le1)
  then have "unat (get_prefix g) \<le> unat (0xFFFFFFFFFFFF :: u64)"
    by (simp add: word_le_nat_alt)
  then show ?thesis by simp
qed

lemma task_nodes_body_running [simp]: "running (task_nodes_body d x st) = running st"
  by (simp add: task_nodes_body_def Let_def)

lemma nodes_task_nodes_body:
  "nodes (task_nodes_body d x st) p =
     (if accepts (CHR ''N'') x \<and> get_prefix (guid (d x)) = p then Some (name (d x))
      else nodes st p)"
  by (simp add: task_nodes_body_def Let_def)

lemma nodes_task_nodes:
  "running st \<Longrightarrow> nodes (task_nodes d ds st) p =
     (let ms = filter (\<lambda>m. get_prefix (guid m) = p) (node_announcements d ds)
      in if ms = [] then nodes st p else Some (name (last ms)))"
proof (induction ds arbitrary: st)
  case Nil
  then show ?case by (simp add: node_announcements_def)
next
  case (Cons x xs)
  then show ?case
    by (simp add: nodes_task_nodes_body Let_def node_announcements_def)
qed

lemma dom_task_nodes:
  assumes "running st"
  shows "dom (nodes (task_nodes d ds st)) =
         dom (nodes st) \<union> (\<lambda>m. get_prefix (guid m)) ` set (node_announcements d ds)"
proof (rule set_eqI)
  fix p
  let ?ms = "filter (\<lambda>m. get_prefix (guid m) = p) (node_announcements d ds)"
  have "?ms \<noteq> [] \<longleftrightarrow> p \<in> (\<lambda>m. get_prefix (guid m)) ` set (node_announcements d ds)"
    by (auto simp: filter_empty_conv)
  then show "p \<in> dom (nodes (task_nodes d ds st)) \<longleftrightarrow>
      p \<in> dom (nodes st) \<union> (\<lambda>m. get_prefix (guid m)) ` set (node_announcements d ds)"
    using nodes_task_nodes [OF assms, of d ds p] by (auto simp: Let_def dom_def)
qed

text \<open>C1: after the node listener has run over any datagrams, from any state in which
  \<open>running\<close> holds (the initial one among them), the node map has a name for exactly the
  prefixes it had before and the prefixes of the announcements processed; every such
  prefix is below \<open>2 ^ 48\<close>; and the name of a prefix is the name of the last processed
  announcement whose guid masks to it (the earlier name when there was none).\<close>

theorem node_map_last_write_wins:
  assumes "running state"
  shows "(\<forall>m \<in> set (node_announcements deserialize ds). unat (get_prefix (guid m)) < 2 ^ 48) \<and>
         dom (nodes (task_nodes deserialize ds state)) =
           dom (nodes state) \<union>
           (\<lambda>m. get_prefix (guid m)) ` set (node_announcements deserialize ds) \<and>
         nodes (task_nodes deserialize ds state) p =
           (let ms = filter (\<lambda>m. get_prefix (guid m) = p) (node_announcements deserialize ds)
            in if ms = [] then nodes state p else Some (name (last ms)))"
  using nodes_task_nodes [OF assms] dom_task_nodes [OF assms] get_prefix_48 by blast

text \<open>Two announcements whose guids differ above bit 47 only, between a short datagram
  and one with another tag: one entry, with the second name.\<close>

theorem node_map_last_write_wins_witness:
  "running init_state \<and>
   nodes (task_nodes
            (\<lambda>data. \<lparr>guid = \<lparr>full = (if data ! 13 = CHR ''1'' then 0x10007B00000000AA
                                       else 0x20007B00000000AA)\<rparr>,
                      name = drop 1 data\<rparr>)
            [''Ncamera_node_1'', ''short'', ''Ncamera_node_2'', ''Xcamera_node_3'']
            init_state) 0x7B00000000AA
     = Some ''camera_node_2''"
  using node_map_last_write_wins [of init_state
      "\<lambda>data. \<lparr>guid = \<lparr>full = (if data ! 13 = CHR ''1'' then 0x10007B00000000AA
                                 else 0x20007B00000000AA)\<rparr>,
                name = drop 1 data\<rparr>"
      "[''Ncamera_node_1'', ''short'', ''Ncamera_node_2'', ''Xcamera_node_3'']"
      "0x7B00000000AA"]
  by (simp add: init_state_def node_announcements_def accepts_def get_prefix_def)

subsection \<open>The endpoint listener appends a record once\<close>

lemma scan_exists_iff:
  "scan_exists t r l ex = (ex \<or> \<lparr>topic = t, is_pub = r\<rparr> \<in> set l)"
proof (induction l arbitrary: ex)
  case Nil
  then show ?case by simp
next
  case (Cons ep eps)
  have "(ep = \<lparr>topic = t, is_pub = r\<rparr>) = (topic ep = t \<and> is_pub ep = r)"
    by (cases ep) simp
  with Cons show ?case by auto
qed

lemma task_topics_body_running [simp]: "running (task_topics_body d x st) = running st"
  by (simp add: task_topics_body_def Let_def um_index_def split: option.splits prod.splits)

lemma endpoints_task_topics_body:
  "endpoints_of (task_topics_body d x st) p =
     (if accepts (CHR ''E'') x \<and> get_prefix (endpoint_guid (d x)) = p \<and>
         endpoint_of (d x) \<notin> set (endpoints_of st p)
      then endpoints_of st p @ [endpoint_of (d x)] else endpoints_of st p)"
  by (auto simp: task_topics_body_def Let_def um_index_def endpoints_of_def endpoint_of_def
      scan_exists_iff split: option.splits)

lemma endpoints_task_topics:
  "running st \<Longrightarrow> distinct (endpoints_of st p) \<Longrightarrow>
   distinct (endpoints_of (task_topics d ds st) p) \<and>
   set (endpoints_of (task_topics d ds st) p) =
     set (endpoints_of st p) \<union> set (announced_endpoints p (endpoint_announcements d ds))"
proof (induction ds arbitrary: st)
  case Nil
  then show ?case by (simp add: announced_endpoints_def endpoint_announcements_def)
next
  case (Cons x xs)
  let ?st = "task_topics_body d x st"
  have r: "running ?st" using Cons.prems by simp
  have dst: "distinct (endpoints_of ?st p)"
    using Cons.prems by (simp add: endpoints_task_topics_body)
  from Cons.IH [OF r dst] Cons.prems(1) show ?case
    by (auto simp: endpoints_task_topics_body announced_endpoints_def endpoint_announcements_def)
qed

lemma distinct_count_list_1: "distinct xs \<Longrightarrow> x \<in> set xs \<Longrightarrow> count_list xs x = 1"
  by (induction xs) auto

lemma two_roles_two_records:
  assumes "distinct l" "\<lparr>topic = t, is_pub = True\<rparr> \<in> set l" "\<lparr>topic = t, is_pub = False\<rparr> \<in> set l"
  shows "length (filter (\<lambda>e. topic e = t) l) = 2"
proof -
  let ?P = "\<lparr>topic = t, is_pub = True\<rparr>" and ?S = "\<lparr>topic = t, is_pub = False\<rparr>"
  have cases: "topic e = t \<longleftrightarrow> e = ?P \<or> e = ?S" for e :: EndpointInfo
    by (cases e) (simp, blast)
  have "{e. topic e = t} \<inter> set l = {?P, ?S}"
    using assms(2,3) cases by blast
  moreover have "?P \<noteq> ?S" by simp
  moreover have "length (filter (\<lambda>e. topic e = t) l) = card ({e. topic e = t} \<inter> set l)"
    using assms(1) by (simp add: distinct_length_filter)
  ultimately show ?thesis by simp
qed

text \<open>C2: after the endpoint listener has run over any datagrams, from any state in
  which \<open>running\<close> holds and the list of the prefix has no repeated record (the initial
  state among them), the list of the prefix has no repeated record, holds exactly the
  earlier records and the records announced for the prefix, so each announced
  (topic, role) pair once, however often it was announced; and when a topic was announced
  for the prefix in both roles, the list has two records of that topic.\<close>

theorem endpoint_lists_deduplicated:
  assumes "running state" and "distinct (endpoints_of state p)"
  shows "distinct (endpoints_of (task_topics deserialize ds state) p) \<and>
         set (endpoints_of (task_topics deserialize ds state) p) =
           set (endpoints_of state p) \<union>
           set (announced_endpoints p (endpoint_announcements deserialize ds)) \<and>
         (\<forall>e \<in> set (announced_endpoints p (endpoint_announcements deserialize ds)).
            count_list (endpoints_of (task_topics deserialize ds state) p) e = 1) \<and>
         (\<forall>t. \<lparr>topic = t, is_pub = True\<rparr> \<in> set (announced_endpoints p (endpoint_announcements deserialize ds)) \<and>
              \<lparr>topic = t, is_pub = False\<rparr> \<in> set (announced_endpoints p (endpoint_announcements deserialize ds)) \<longrightarrow>
              length (filter (\<lambda>e. topic e = t) (endpoints_of (task_topics deserialize ds state) p)) = 2)"
proof -
  let ?l = "endpoints_of (task_topics deserialize ds state) p"
  let ?a = "announced_endpoints p (endpoint_announcements deserialize ds)"
  have d: "distinct ?l" and s: "set ?l = set (endpoints_of state p) \<union> set ?a"
    using endpoints_task_topics [OF assms] by blast+
  have c: "\<forall>e \<in> set ?a. count_list ?l e = 1"
    using d s by (simp add: distinct_count_list_1)
  have t: "\<forall>t. \<lparr>topic = t, is_pub = True\<rparr> \<in> set ?a \<and> \<lparr>topic = t, is_pub = False\<rparr> \<in> set ?a \<longrightarrow>
      length (filter (\<lambda>e. topic e = t) ?l) = 2"
    using d s by (simp add: two_roles_two_records)
  from d s c t show ?thesis by blast
qed

text \<open>The same publisher announced three times and a subscriber of the same topic once:
  two records.\<close>

theorem endpoint_lists_deduplicated_witness:
  "running init_state \<and> distinct (endpoints_of init_state 0xAA) \<and>
   endpoints_of
     (task_topics
        (\<lambda>data. \<lparr>endpoint_guid = \<lparr>full = 0xAA\<rparr>, topic = take 3 (drop 1 data),
                  type = (if data ! 13 = CHR ''W'' then Writer else Reader)\<rparr>)
        [''Eimu_________W'', ''Eimu_________W'', ''Eimu_________R'', ''Eimu_________W'']
        init_state) 0xAA
     = [\<lparr>topic = ''imu'', is_pub = True\<rparr>, \<lparr>topic = ''imu'', is_pub = False\<rparr>]"
  using endpoint_lists_deduplicated [of init_state "0xAA"
        "\<lambda>data. \<lparr>endpoint_guid = \<lparr>full = 0xAA\<rparr>, topic = take 3 (drop 1 data),
                  type = (if data ! 13 = CHR ''W'' then Writer else Reader)\<rparr>"
        "[''Eimu_________W'', ''Eimu_________W'', ''Eimu_________R'', ''Eimu_________W'']"]
  by (simp add: init_state_def endpoints_of_def task_topics_body_def accepts_def um_index_def
      get_prefix_def Let_def)

subsection \<open>Datagrams that fail the test\<close>

text \<open>C7: a datagram shorter than 14 bytes, or whose first byte is not the listener's
  tag (\<open>N\<close> for the node listener, \<open>E\<close> for the endpoint listener), leaves the whole
  state as it was. The loop bodies have no other result than the state: nothing is
  printed, returned or thrown.\<close>

theorem malformed_datagram_dropped:
  "(length data < 14 \<or> data ! 0 \<noteq> CHR ''N'' \<longrightarrow> task_nodes_body dn data state = state) \<and>
   (length data < 14 \<or> data ! 0 \<noteq> CHR ''E'' \<longrightarrow> task_topics_body de data state = state)"
  by (auto simp: task_nodes_body_def task_topics_body_def accepts_def)

theorem malformed_datagram_dropped_witness:
  "task_nodes_body (\<lambda>data. \<lparr>guid = \<lparr>full = 0xAA\<rparr>, name = data\<rparr>) ''Nshort'' init_state
     = init_state \<and>
   task_topics_body (\<lambda>data. \<lparr>endpoint_guid = \<lparr>full = 0xAA\<rparr>, topic = data, type = Writer\<rparr>)
     ''Nsensor1_is_here'' init_state = init_state"
  using malformed_datagram_dropped [of "''Nshort''"
          "\<lambda>data. \<lparr>guid = \<lparr>full = 0xAA\<rparr>, name = data\<rparr>" init_state
          "\<lambda>data. \<lparr>endpoint_guid = \<lparr>full = 0xAA\<rparr>, topic = data, type = Writer\<rparr>"]
        malformed_datagram_dropped [of "''Nsensor1_is_here''"
          "\<lambda>data. \<lparr>guid = \<lparr>full = 0xAA\<rparr>, name = data\<rparr>" init_state
          "\<lambda>data. \<lparr>endpoint_guid = \<lparr>full = 0xAA\<rparr>, topic = data, type = Writer\<rparr>"]
  by simp

subsection \<open>The order of the two listeners' blocks does not matter\<close>

text \<open>The node listener writes \<open>nodes\<close> only and the endpoint listener \<open>topics\<close> only, so
  their blocks commute: a run of blocks in any order ends in the state that the node
  listener's datagrams followed by the endpoint listener's datagrams give. That the blocks
  do not overlap is the mutex's work and is taken for granted here.\<close>

lemma listener_bodies_commute:
  "task_nodes_body dn x (task_topics_body de y st) = task_topics_body de y (task_nodes_body dn x st)"
  by (simp add: task_nodes_body_def task_topics_body_def Let_def case_prod_unfold)

lemma topics_body_past_nodes:
  "task_topics_body de y (fold (task_nodes_body dn) xs st) =
   fold (task_nodes_body dn) xs (task_topics_body de y st)"
  by (induction xs arbitrary: st) (simp_all add: listener_bodies_commute)

lemma interleaved_steps:
  "fold (run_step dn de) zs st =
   fold (task_topics_body de) (endpoint_data zs) (fold (task_nodes_body dn) (node_data zs) st)"
proof (induction zs arbitrary: st rule: node_data.induct)
  case 1
  then show ?case by simp
next
  case (2 data zs)
  then show ?case by simp
next
  case (3 data zs)
  then show ?case by (simp add: topics_body_past_nodes)
qed

lemma task_nodes_fold: "running st \<Longrightarrow> task_nodes d ds st = fold (task_nodes_body d) ds st"
  by (induction ds arbitrary: st) simp_all

lemma task_topics_fold: "running st \<Longrightarrow> task_topics d ds st = fold (task_topics_body d) ds st"
  by (induction ds arbitrary: st) simp_all

lemma task_nodes_keeps_running: "running (task_nodes d ds st) = running st"
  by (induction ds arbitrary: st) simp_all

lemma interleaving_irrelevant:
  assumes "running st"
  shows "fold (run_step dn de) zs st =
         task_topics de (endpoint_data zs) (task_nodes dn (node_data zs) st)"
proof -
  have n: "task_nodes dn (node_data zs) st = fold (task_nodes_body dn) (node_data zs) st"
    using assms by (rule task_nodes_fold)
  have "running (task_nodes dn (node_data zs) st)"
    using assms by (simp add: task_nodes_keeps_running)
  then have "task_topics de (endpoint_data zs) (task_nodes dn (node_data zs) st) =
      fold (task_topics_body de) (endpoint_data zs) (task_nodes dn (node_data zs) st)"
    by (rule task_topics_fold)
  then show ?thesis by (simp add: n interleaved_steps)
qed

subsection \<open>Visiting a map\<close>

lemma um_index_present: "m k = Some v \<Longrightarrow> um_index m k d = (m, v)"
  by (simp add: um_index_def)

lemma um_index_snd: "snd (um_index (topics st) p []) = endpoints_of st p"
  by (simp add: um_index_def endpoints_of_def split: option.splits)

lemma um_items_Nil [simp]: "um_items [] m = []"
  by (simp add: um_items_def)

lemma um_items_Cons [simp]:
  "um_items (k # ks) m = (case m k of None \<Rightarrow> um_items ks m | Some v \<Rightarrow> (k, v) # um_items ks m)"
  by (simp add: um_items_def split: option.splits)

lemma um_items_set: "set (um_items ks m) = {(k, v). k \<in> set ks \<and> m k = Some v}"
  by (induction ks) (auto split: option.splits)

lemma set_um_items: "traversal ks m \<Longrightarrow> set (um_items ks m) = {(k, v). m k = Some v}"
  by (auto simp: traversal_def um_items_set)

lemma endpoints_of_um_index [simp]:
  "endpoints_of (st\<lparr>topics := fst (um_index (topics st) p [])\<rparr>) = endpoints_of st"
  by (rule ext) (simp add: endpoints_of_def um_index_def split: option.splits)


subsection \<open>What the graph export writes\<close>

lemma graph_nodes_eq:
  "graph_nodes items st out =
     (st, out @ concat (map (\<lambda>(p, nm). node_vertex p nm # map (edge_stmt p) (endpoints_of st p)) items))"
proof (induction items arbitrary: out)
  case Nil
  then show ?case by simp
next
  case (Cons it items)
  obtain p nm where it: "it = (p, nm)" by (cases it)
  show ?case
  proof (cases "topics st p")
    case None
    then show ?thesis using Cons it by (simp add: endpoints_of_def)
  next
    case (Some eps)
    then show ?thesis using Cons it by (simp add: endpoints_of_def um_index_present)
  qed
qed

lemma fold_insort_insert:
  "sorted acc \<Longrightarrow> distinct acc \<Longrightarrow>
   sorted (fold (\<lambda>ep. insort_insert (topic ep)) eps acc) \<and>
   distinct (fold (\<lambda>ep. insort_insert (topic ep)) eps acc) \<and>
   set (fold (\<lambda>ep. insort_insert (topic ep)) eps acc) = set acc \<union> topic ` set eps"
proof (induction eps arbitrary: acc)
  case Nil
  then show ?case by simp
next
  case (Cons ep eps)
  have "sorted (insort_insert (topic ep) acc)" "distinct (insort_insert (topic ep) acc)"
    using Cons.prems by (simp_all add: sorted_insort_insert distinct_insort_insert)
  from Cons.IH [OF this] show ?case by (auto simp: set_insort_insert)
qed

lemma fold_collect:
  "sorted acc \<Longrightarrow> distinct acc \<Longrightarrow>
   sorted (fold (\<lambda>(p, eps). fold (\<lambda>ep. insort_insert (topic ep)) eps) items acc) \<and>
   distinct (fold (\<lambda>(p, eps). fold (\<lambda>ep. insort_insert (topic ep)) eps) items acc) \<and>
   set (fold (\<lambda>(p, eps). fold (\<lambda>ep. insort_insert (topic ep)) eps) items acc) =
     set acc \<union> (\<Union>(p, eps) \<in> set items. topic ` set eps)"
proof (induction items arbitrary: acc)
  case Nil
  then show ?case by simp
next
  case (Cons it items)
  obtain p eps where it: "it = (p, eps)" by (cases it)
  let ?acc = "fold (\<lambda>ep. insort_insert (topic ep)) eps acc"
  have a: "sorted ?acc" "distinct ?acc" and s: "set ?acc = set acc \<union> topic ` set eps"
    using fold_insort_insert [OF Cons.prems] by blast+
  from Cons.IH [OF a] s it show ?case by auto
qed

lemma collect_topics_props:
  "sorted (collect_topics items)" "distinct (collect_topics items)"
  "set (collect_topics items) = (\<Union>(p, eps) \<in> set items. topic ` set eps)"
  using fold_collect [of "[]" items] by (simp_all add: collect_topics_def)

lemma collect_topics_traversal:
  assumes "traversal kt m" "traversal kt' m"
  shows "collect_topics (um_items kt m) = collect_topics (um_items kt' m)"
proof (rule sorted_distinct_set_unique)
  show "set (collect_topics (um_items kt m)) = set (collect_topics (um_items kt' m))"
    using assms by (simp add: collect_topics_props set_um_items)
qed (simp_all add: collect_topics_props)

lemma graph_stmts_eq:
  "graph_stmts kt kn st =
     (st, header @ map topic_vertex (collect_topics (um_items kt (topics st))) @
          concat (map (\<lambda>(p, nm). node_vertex p nm # map (edge_stmt p) (endpoints_of st p))
                    (um_items kn (nodes st))) @ footer)"
  by (simp add: graph_stmts_def graph_nodes_eq Let_def)

lemma map_filter_append': "List.map_filter f (xs @ ys) = List.map_filter f xs @ List.map_filter f ys"
  by (simp add: List.map_filter_def)

lemma declared_topic_topic_vertex: "List.map_filter declared_topic (map topic_vertex ts) = ts"
  by (induction ts) (simp_all add: List.map_filter_simps topic_vertex_def)

lemma declared_topic_node_part:
  "List.map_filter declared_topic
     (concat (map (\<lambda>(p, nm). node_vertex p nm # map (edge_stmt p) (f p)) items)) = []"
proof -
  have "declared_topic s = None"
    if "s \<in> set (concat (map (\<lambda>(p, nm). node_vertex p nm # map (edge_stmt p) (f p)) items))" for s
    using that by (auto simp: node_vertex_def edge_stmt_def)
  then show ?thesis
    by (simp add: List.map_filter_def filter_empty_conv)
qed

lemma declared_topics_graph:
  "List.map_filter declared_topic (snd (graph_stmts kt kn st)) =
     collect_topics (um_items kt (topics st))"
  by (simp add: graph_stmts_eq map_filter_append' declared_topic_topic_vertex
      declared_topic_node_part)
     (simp add: header_def footer_def List.map_filter_simps)

lemma generate_graph_state: "fst (generate_graph ok kt kn st) = st"
  by (simp add: generate_graph_def graph_stmts_eq)

lemma generate_graph_traversal:
  "traversal kt (topics st) \<Longrightarrow> traversal kt' (topics st) \<Longrightarrow>
   generate_graph ok kt' kn st = generate_graph ok kt kn st"
  using collect_topics_traversal [of kt "topics st" kt']
  by (simp add: generate_graph_def graph_stmts_eq)

lemma char_above_not_nul: "(x::char) < y \<Longrightarrow> y \<noteq> CHR 0x00"
  by (auto simp: less_char_def)

lemma c_str_mono: "s \<le> t \<Longrightarrow> c_str s \<le> c_str t"
proof (induction s arbitrary: t)
  case Nil
  then show ?case by (simp add: c_str_def)
next
  case (Cons x xs)
  then obtain y ys where t: "t = y # ys" by (cases t) auto
  from Cons.prems t have "x < y \<or> x = y \<and> xs \<le> ys" by simp
  then show ?case
  proof
    assume "x < y"
    then show ?thesis using t char_above_not_nul [of x y] by (simp add: c_str_def)
  next
    assume "x = y \<and> xs \<le> ys"
    then show ?thesis using t Cons.IH [of ys] by (simp add: c_str_def)
  qed
qed

lemma sorted_map_c_str: "sorted ts \<Longrightarrow> sorted (map c_str ts)"
  by (induction ts) (auto simp: c_str_mono)

lemma distinct_um_items: "distinct ks \<Longrightarrow> distinct (um_items ks m)"
  by (induction ks) (auto simp: um_items_set split: option.splits)

lemma mset_um_items:
  assumes "traversal ks m" and "traversal ks' m"
  shows "mset (um_items ks m) = mset (um_items ks' m)"
proof -
  have "distinct (um_items ks m)" "distinct (um_items ks' m)"
    using assms by (simp_all add: traversal_def distinct_um_items)
  moreover have "set (um_items ks m) = set (um_items ks' m)"
    using assms by (simp add: set_um_items)
  ultimately show ?thesis
    by (simp add: set_eq_iff_mset_eq_distinct)
qed

lemma mset_concat_map:
  assumes "mset xs = mset ys"
  shows "mset (concat (map f xs)) = mset (concat (map f ys))"
proof -
  have "mset (concat (map f zs)) = sum_mset (image_mset (\<lambda>z. mset (f z)) (mset zs))" for zs
    by (induction zs) simp_all
  then show ?thesis using assms by simp
qed

lemma mset_graph_stmts:
  assumes "traversal kt (topics st)" and "traversal kt' (topics st)"
    and "traversal kn (nodes st)" and "traversal kn' (nodes st)"
  shows "mset (snd (graph_stmts kt' kn' st)) = mset (snd (graph_stmts kt kn st))"
  using collect_topics_traversal [OF assms(1,2)]
    mset_concat_map [OF mset_um_items [OF assms(4,3)],
      of "\<lambda>(p, nm). node_vertex p nm # map (edge_stmt p) (endpoints_of st p)"]
  by (simp add: graph_stmts_eq)

text \<open>C4, as the code has it: the export leaves the state as it found it, and its result
  is a function of the two maps and of the order in which \<open>state.nodes\<close> is visited, which
  \<open>std::unordered_map\<close> leaves open. For one visiting order of \<open>state.nodes\<close> a second
  export returns the same bytes and effects, whatever the order in which \<open>state.topics\<close>
  is visited. For two visiting orders of \<open>state.nodes\<close> the exports consist of the same
  statements, each as often, and can differ in their order only. The topic vertices are
  declared in strictly ascending lexicographic order of the topic names (compared as
  \<open>std::string\<close>s), and the names as printed, cut at a NUL, do not descend.\<close>

theorem graph_export_deterministic:
  "fst (generate_graph ok kt kn state) = state \<and>
   (traversal kt (topics state) \<and> traversal kt' (topics state) \<longrightarrow>
      generate_graph ok kt' kn (fst (generate_graph ok kt kn state)) =
      generate_graph ok kt kn state) \<and>
   (traversal kt (topics state) \<and> traversal kt' (topics state) \<and>
    traversal kn (nodes state) \<and> traversal kn' (nodes state) \<longrightarrow>
      mset (snd (graph_stmts kt' kn' state)) = mset (snd (graph_stmts kt kn state))) \<and>
   sorted_wrt (<) (List.map_filter declared_topic (snd (graph_stmts kt kn state))) \<and>
   sorted (map c_str (List.map_filter declared_topic (snd (graph_stmts kt kn state))))"
proof -
  have s: "sorted_wrt (<) (collect_topics (um_items kt (topics state)))"
    using collect_topics_props(1,2) [of "um_items kt (topics state)"]
    by (simp add: strict_sorted_iff)
  have c: "sorted (map c_str (collect_topics (um_items kt (topics state))))"
    using collect_topics_props(1) [of "um_items kt (topics state)"] by (rule sorted_map_c_str)
  have m: "mset (snd (graph_stmts kt' kn' state)) = mset (snd (graph_stmts kt kn state))"
    if "traversal kt (topics state)" "traversal kt' (topics state)"
      "traversal kn (nodes state)" "traversal kn' (nodes state)"
    using that by (rule mset_graph_stmts)
  from s c m show ?thesis
    by (simp add: generate_graph_state generate_graph_traversal declared_topics_graph)
qed

text \<open>Two named nodes and three topics, the maps visited in both orders.\<close>

theorem graph_export_deterministic_witness:
  "traversal [1, 2] (topics \<lparr>nodes = [1 \<mapsto> ''cam'', 2 \<mapsto> ''arm''],
       topics = [1 \<mapsto> [\<lparr>topic = ''zeta'', is_pub = True\<rparr>, \<lparr>topic = ''alpha'', is_pub = False\<rparr>],
                 2 \<mapsto> [\<lparr>topic = ''mid'', is_pub = True\<rparr>]], running = True\<rparr>) \<and>
   traversal [2, 1] (topics \<lparr>nodes = [1 \<mapsto> ''cam'', 2 \<mapsto> ''arm''],
       topics = [1 \<mapsto> [\<lparr>topic = ''zeta'', is_pub = True\<rparr>, \<lparr>topic = ''alpha'', is_pub = False\<rparr>],
                 2 \<mapsto> [\<lparr>topic = ''mid'', is_pub = True\<rparr>]], running = True\<rparr>) \<and>
   traversal [1, 2] (nodes \<lparr>nodes = [1 \<mapsto> ''cam'', 2 \<mapsto> ''arm''],
       topics = [1 \<mapsto> [\<lparr>topic = ''zeta'', is_pub = True\<rparr>, \<lparr>topic = ''alpha'', is_pub = False\<rparr>],
                 2 \<mapsto> [\<lparr>topic = ''mid'', is_pub = True\<rparr>]], running = True\<rparr>) \<and>
   traversal [2, 1] (nodes \<lparr>nodes = [1 \<mapsto> ''cam'', 2 \<mapsto> ''arm''],
       topics = [1 \<mapsto> [\<lparr>topic = ''zeta'', is_pub = True\<rparr>, \<lparr>topic = ''alpha'', is_pub = False\<rparr>],
                 2 \<mapsto> [\<lparr>topic = ''mid'', is_pub = True\<rparr>]], running = True\<rparr>) \<and>
   generate_graph True [2, 1] [1, 2]
     (fst (generate_graph True [1, 2] [1, 2] \<lparr>nodes = [1 \<mapsto> ''cam'', 2 \<mapsto> ''arm''],
       topics = [1 \<mapsto> [\<lparr>topic = ''zeta'', is_pub = True\<rparr>, \<lparr>topic = ''alpha'', is_pub = False\<rparr>],
                 2 \<mapsto> [\<lparr>topic = ''mid'', is_pub = True\<rparr>]], running = True\<rparr>)) =
   generate_graph True [1, 2] [1, 2] \<lparr>nodes = [1 \<mapsto> ''cam'', 2 \<mapsto> ''arm''],
       topics = [1 \<mapsto> [\<lparr>topic = ''zeta'', is_pub = True\<rparr>, \<lparr>topic = ''alpha'', is_pub = False\<rparr>],
                 2 \<mapsto> [\<lparr>topic = ''mid'', is_pub = True\<rparr>]], running = True\<rparr> \<and>
   mset (snd (graph_stmts [2, 1] [2, 1] \<lparr>nodes = [1 \<mapsto> ''cam'', 2 \<mapsto> ''arm''],
       topics = [1 \<mapsto> [\<lparr>topic = ''zeta'', is_pub = True\<rparr>, \<lparr>topic = ''alpha'', is_pub = False\<rparr>],
                 2 \<mapsto> [\<lparr>topic = ''mid'', is_pub = True\<rparr>]], running = True\<rparr>)) =
   mset (snd (graph_stmts [1, 2] [1, 2] \<lparr>nodes = [1 \<mapsto> ''cam'', 2 \<mapsto> ''arm''],
       topics = [1 \<mapsto> [\<lparr>topic = ''zeta'', is_pub = True\<rparr>, \<lparr>topic = ''alpha'', is_pub = False\<rparr>],
                 2 \<mapsto> [\<lparr>topic = ''mid'', is_pub = True\<rparr>]], running = True\<rparr>)) \<and>
   List.map_filter declared_topic (snd (graph_stmts [1, 2] [1, 2] \<lparr>nodes = [1 \<mapsto> ''cam'', 2 \<mapsto> ''arm''],
       topics = [1 \<mapsto> [\<lparr>topic = ''zeta'', is_pub = True\<rparr>, \<lparr>topic = ''alpha'', is_pub = False\<rparr>],
                 2 \<mapsto> [\<lparr>topic = ''mid'', is_pub = True\<rparr>]], running = True\<rparr>))
     = [''alpha'', ''mid'', ''zeta'']"
proof -
  let ?st = "\<lparr>nodes = [1 \<mapsto> ''cam'', 2 \<mapsto> ''arm''],
       topics = [1 \<mapsto> [\<lparr>topic = ''zeta'', is_pub = True\<rparr>, \<lparr>topic = ''alpha'', is_pub = False\<rparr>],
                 2 \<mapsto> [\<lparr>topic = ''mid'', is_pub = True\<rparr>]], running = True\<rparr>"
  have t: "traversal [1, 2] (topics ?st)" "traversal [2, 1] (topics ?st)"
    "traversal [1, 2] (nodes ?st)" "traversal [2, 1] (nodes ?st)"
    by (auto simp: traversal_def)
  from graph_export_deterministic [of True "[1, 2]" "[1, 2]" ?st "[2, 1]" "[2, 1]"] t
  have e: "generate_graph True [2, 1] [1, 2] (fst (generate_graph True [1, 2] [1, 2] ?st)) =
      generate_graph True [1, 2] [1, 2] ?st"
    and m: "mset (snd (graph_stmts [2, 1] [2, 1] ?st)) = mset (snd (graph_stmts [1, 2] [1, 2] ?st))"
    by blast+
  have d: "List.map_filter declared_topic (snd (graph_stmts [1, 2] [1, 2] ?st)) =
      [''alpha'', ''mid'', ''zeta'']"
    by (simp add: declared_topics_graph collect_topics_def insort_insert_key_def)
  from t e m d show ?thesis by blast
qed

text \<open>The same two maps, \<open>state.nodes\<close> visited as \<open>1, 2\<close> and as \<open>2, 1\<close>: the two node
  declarations change places, and the bytes of the file differ.\<close>

theorem graph_export_node_order_counterexample:
  "traversal [1, 2] (nodes \<lparr>nodes = [1 \<mapsto> ''a'', 2 \<mapsto> ''b''], topics = Map.empty, running = True\<rparr>) \<and>
   traversal [2, 1] (nodes \<lparr>nodes = [1 \<mapsto> ''a'', 2 \<mapsto> ''b''], topics = Map.empty, running = True\<rparr>) \<and>
   snd (graph_stmts [] [1, 2]
       \<lparr>nodes = [1 \<mapsto> ''a'', 2 \<mapsto> ''b''], topics = Map.empty, running = True\<rparr>) =
     header @ [VertexDecl (NodeV 1) ''a'' ''box'' ''lightblue'',
               VertexDecl (NodeV 2) ''b'' ''box'' ''lightblue''] @ footer \<and>
   snd (graph_stmts [] [2, 1]
       \<lparr>nodes = [1 \<mapsto> ''a'', 2 \<mapsto> ''b''], topics = Map.empty, running = True\<rparr>) =
     header @ [VertexDecl (NodeV 2) ''b'' ''box'' ''lightblue'',
               VertexDecl (NodeV 1) ''a'' ''box'' ''lightblue''] @ footer \<and>
   dotfile (snd (generate_graph True [] [1, 2]
       \<lparr>nodes = [1 \<mapsto> ''a'', 2 \<mapsto> ''b''], topics = Map.empty, running = True\<rparr>)) \<noteq>
   dotfile (snd (generate_graph True [] [2, 1]
       \<lparr>nodes = [1 \<mapsto> ''a'', 2 \<mapsto> ''b''], topics = Map.empty, running = True\<rparr>))"
  by (simp add: traversal_def generate_graph_def graph_stmts_def collect_topics_def Let_def
      header_def footer_def node_vertex_def lx_def lx_nat.simps hex_digit_def c_str_def)
     auto

lemma filter_edges_node_part:
  "filter is_edge (concat (map (\<lambda>(p, nm). node_vertex p nm # map (edge_stmt p) (f p)) items)) =
   concat (map (\<lambda>(p, nm). map (edge_stmt p) (f p)) items)"
proof (induction items)
  case Nil
  then show ?case by simp
next
  case (Cons it items)
  obtain p nm where it: "it = (p, nm)" by (cases it)
  have "filter is_edge (map (edge_stmt p) (f p)) = map (edge_stmt p) (f p)"
    by (auto simp: filter_id_conv edge_stmt_def)
  then show ?case using Cons it by (simp add: node_vertex_def)
qed

text \<open>C5: the edges of the export are, in order, one for every endpoint record of every
  node visited: for a publisher record the edge from the node's vertex to the topic's
  vertex, for a subscriber record the edge from the topic's vertex to the node's vertex.\<close>

theorem graph_edges_follow_role:
  "filter is_edge (snd (graph_stmts kt kn state)) =
     concat (map (\<lambda>(p, nm).
                   map (\<lambda>ep. if is_pub ep
                              then EdgeDecl (NodeV p) (TopicV (topic ep)) ''blue'' ''pub''
                              else EdgeDecl (TopicV (topic ep)) (NodeV p) ''darkgreen'' ''sub'')
                       (endpoints_of state p))
                (um_items kn (nodes state)))"
proof -
  have "filter is_edge (header @ map topic_vertex ts) = []" for ts
    by (simp add: header_def topic_vertex_def filter_empty_conv)
  moreover have "filter is_edge footer = []"
    by (simp add: footer_def)
  moreover have "edge_stmt p = (\<lambda>ep. if is_pub ep
                              then EdgeDecl (NodeV p) (TopicV (topic ep)) ''blue'' ''pub''
                              else EdgeDecl (TopicV (topic ep)) (NodeV p) ''darkgreen'' ''sub'')" for p
    by (rule ext) (simp add: edge_stmt_def)
  ultimately show ?thesis
    using filter_edges_node_part [of "endpoints_of state" "um_items kn (nodes state)"]
    by (simp add: graph_stmts_eq)
qed

text \<open>A node with a publisher and a subscriber record, and the bytes of its two edges.\<close>

theorem graph_edges_follow_role_witness:
  "filter is_edge (snd (graph_stmts [0xAA] [0xAA]
      \<lparr>nodes = [0xAA \<mapsto> ''sensor1''],
       topics = [0xAA \<mapsto> [\<lparr>topic = ''imu'', is_pub = True\<rparr>, \<lparr>topic = ''cmd'', is_pub = False\<rparr>]],
       running = True\<rparr>)) =
   [EdgeDecl (NodeV 0xAA) (TopicV ''imu'') ''blue'' ''pub'',
    EdgeDecl (TopicV ''cmd'') (NodeV 0xAA) ''darkgreen'' ''sub''] \<and>
   render (EdgeDecl (NodeV 0xAA) (TopicV ''imu'') ''blue'' ''pub'') =
     ''  naa -> '' @ [dq] @ ''t_imu'' @ [dq] @ '' [color=blue, label='' @ [dq] @ ''pub'' @ [dq] @ ''];'' @ [nl] \<and>
   render (EdgeDecl (TopicV ''cmd'') (NodeV 0xAA) ''darkgreen'' ''sub'') =
     ''  '' @ [dq] @ ''t_cmd'' @ [dq] @ '' -> naa [color=darkgreen, label='' @ [dq] @ ''sub'' @ [dq] @ ''];'' @ [nl]"
  using graph_edges_follow_role [of "[0xAA]" "[0xAA]"
      "\<lparr>nodes = [0xAA \<mapsto> ''sensor1''],
       topics = [0xAA \<mapsto> [\<lparr>topic = ''imu'', is_pub = True\<rparr>, \<lparr>topic = ''cmd'', is_pub = False\<rparr>]],
       running = True\<rparr>"]
  by (simp add: endpoints_of_def c_str_def lx_def lx_nat.simps hex_digit_def)

subsection \<open>Prefixes without a name\<close>

lemma mentions_node_part:
  assumes "mentions (NodeV p) s"
    and "s \<in> set (concat (map (\<lambda>(q, nm). node_vertex q nm # map (edge_stmt q) (f q)) items))"
  shows "p \<in> fst ` set items"
  using assms by (force simp: mentions_def node_vertex_def edge_stmt_def split: if_splits)

lemma graph_no_vertex_without_name:
  assumes "nodes st p = None" and "s \<in> set (snd (graph_stmts kt kn st))"
  shows "\<not> mentions (NodeV p) s"
proof
  assume m: "mentions (NodeV p) s"
  have "\<not> mentions (NodeV p) x" if "x \<in> set (header @ footer)" for x
    using that by (auto simp: header_def footer_def mentions_def)
  moreover have "\<not> mentions (NodeV p) (topic_vertex t)" for t
    by (simp add: mentions_def topic_vertex_def)
  ultimately have "s \<in> set (concat (map (\<lambda>(q, nm). node_vertex q nm # map (edge_stmt q) (endpoints_of st q))
                    (um_items kn (nodes st))))"
    using assms(2) m by (auto simp: graph_stmts_eq)
  from mentions_node_part [OF m this] have "p \<in> fst ` set (um_items kn (nodes st))" .
  then show False using assms(1) by (auto simp: um_items_set)
qed

lemma graph_topic_vertices:
  assumes "traversal kt (topics st)" and "ep \<in> set (endpoints_of st p)"
  shows "topic_vertex (topic ep) \<in> set (snd (graph_stmts kt kn st))"
proof -
  from assms(2) obtain eps where e: "topics st p = Some eps" "ep \<in> set eps"
    by (cases "topics st p") (auto simp: endpoints_of_def)
  then have "(p, eps) \<in> set (um_items kt (topics st))"
    using assms(1) by (simp add: set_um_items)
  then have "topic ep \<in> set (collect_topics (um_items kt (topics st)))"
    using e(2) by (auto simp: collect_topics_props)
  then show ?thesis by (simp add: graph_stmts_eq)
qed

lemma graph_node_vertices:
  assumes "traversal kn (nodes st)" and "nodes st q = Some nm"
  shows "node_vertex q nm \<in> set (snd (graph_stmts kt kn st))"
proof -
  have "(q, nm) \<in> set (um_items kn (nodes st))"
    using assms by (simp add: set_um_items)
  then show ?thesis by (force simp: graph_stmts_eq)
qed

text \<open>C3, as the code has it: the second loop of the export runs over \<open>state.nodes\<close>, so
  a prefix that has no entry there is named by no statement of the export, neither by a
  vertex declaration nor by an edge, and there is no placeholder label. The topics of
  its endpoint records still get their oval vertices, and every prefix that has a name
  gets its box labelled with that name.\<close>

theorem graph_vertices_only_for_named_nodes:
  assumes "nodes state p = None"
  shows "(\<forall>s \<in> set (snd (graph_stmts kt kn state)). \<not> mentions (NodeV p) s) \<and>
         (traversal kt (topics state) \<longrightarrow>
            (\<forall>ep \<in> set (endpoints_of state p).
               VertexDecl (TopicV (topic ep)) (topic ep) ''ellipse'' ''lightyellow''
                 \<in> set (snd (graph_stmts kt kn state)))) \<and>
         (traversal kn (nodes state) \<longrightarrow>
            (\<forall>q nm. nodes state q = Some nm \<longrightarrow>
               VertexDecl (NodeV q) nm ''box'' ''lightblue'' \<in> set (snd (graph_stmts kt kn state))))"
  using graph_no_vertex_without_name [OF assms] graph_topic_vertices [of kt state _ p kn]
    graph_node_vertices [of kn state _ _ kt]
  unfolding topic_vertex_def node_vertex_def by blast

theorem graph_vertices_only_for_named_nodes_witness:
  "nodes \<lparr>nodes = Map.empty, topics = [0xAA \<mapsto> [\<lparr>topic = ''imu'', is_pub = True\<rparr>]], running = True\<rparr> 0xAA = None \<and>
   traversal [0xAA] (topics \<lparr>nodes = Map.empty, topics = [0xAA \<mapsto> [\<lparr>topic = ''imu'', is_pub = True\<rparr>]], running = True\<rparr>) \<and>
   VertexDecl (TopicV ''imu'') ''imu'' ''ellipse'' ''lightyellow''
     \<in> set (snd (graph_stmts [0xAA] []
          \<lparr>nodes = Map.empty, topics = [0xAA \<mapsto> [\<lparr>topic = ''imu'', is_pub = True\<rparr>]], running = True\<rparr>)) \<and>
   \<not> mentions (NodeV 0xAA) (VertexDecl (TopicV ''imu'') ''imu'' ''ellipse'' ''lightyellow'')"
  using graph_vertices_only_for_named_nodes [of
      "\<lparr>nodes = Map.empty, topics = [0xAA \<mapsto> [\<lparr>topic = ''imu'', is_pub = True\<rparr>]], running = True\<rparr>"
      "0xAA" "[0xAA]" "[]"]
  by (simp add: traversal_def endpoints_of_def)

text \<open>The state after one endpoint announcement for prefix \<open>0xaa\<close> and no node
  announcement: the file holds the preamble, the topic's vertex and the closing brace;
  no statement names the vertex \<open>naa\<close>.\<close>

theorem orphan_prefix_counterexample:
  "filter (mentions (NodeV 0xAA))
     (snd (graph_stmts [0xAA] []
        \<lparr>nodes = Map.empty, topics = [0xAA \<mapsto> [\<lparr>topic = ''imu'', is_pub = True\<rparr>]], running = True\<rparr>)) = [] \<and>
   dotfile (snd (generate_graph True [0xAA] []
        \<lparr>nodes = Map.empty, topics = [0xAA \<mapsto> [\<lparr>topic = ''imu'', is_pub = True\<rparr>]], running = True\<rparr>)) =
     Some (''digraph G {'' @ [nl] @
           ''  rankdir=LR;'' @ [nl] @
           ''  node [fontname='' @ [dq] @ ''sans-serif'' @ [dq] @ '', fontsize=10];'' @ [nl, nl] @
           ''  '' @ [dq] @ ''t_imu'' @ [dq] @ '' [label='' @ [dq] @ ''imu'' @ [dq] @
             '', shape=ellipse, style=filled, fillcolor=lightyellow];'' @ [nl] @
           ''}'' @ [nl])"
  by (simp add: generate_graph_def graph_stmts_def collect_topics_def um_index_def Let_def
      header_def footer_def topic_vertex_def mentions_def insort_insert_key_def c_str_def)

subsection \<open>When the file cannot be opened\<close>

text \<open>C8, as the code has it: when \<open>fopen\<close> fails the export returns at once. The state
  is unchanged, no file content is produced and \<open>system\<close> is not called; nothing is
  printed either, and the function returns \<open>void\<close>, so the failure is not reported.\<close>

theorem export_failure_silent:
  "generate_graph False kt kn state = (state, \<lparr>printed = [], dotfile = None, shell = []\<rparr>)"
  by (simp add: generate_graph_def no_effects_def)

theorem export_failure_silent_witness:
  "generate_graph False [0xAA] [0xAA]
      \<lparr>nodes = [0xAA \<mapsto> ''sensor1''], topics = [0xAA \<mapsto> [\<lparr>topic = ''imu'', is_pub = True\<rparr>]],
       running = True\<rparr> =
   (\<lparr>nodes = [0xAA \<mapsto> ''sensor1''], topics = [0xAA \<mapsto> [\<lparr>topic = ''imu'', is_pub = True\<rparr>]],
       running = True\<rparr>, \<lparr>printed = [], dotfile = None, shell = []\<rparr>) \<and>
   shell (snd (generate_graph True [0xAA] [0xAA]
      \<lparr>nodes = [0xAA \<mapsto> ''sensor1''], topics = [0xAA \<mapsto> [\<lparr>topic = ''imu'', is_pub = True\<rparr>]],
       running = True\<rparr>)) = [rasterize]"
  using export_failure_silent [of "[0xAA]" "[0xAA]"
      "\<lparr>nodes = [0xAA \<mapsto> ''sensor1''], topics = [0xAA \<mapsto> [\<lparr>topic = ''imu'', is_pub = True\<rparr>]],
       running = True\<rparr>"]
  by (simp add: generate_graph_def graph_stmts_eq)

text \<open>A failed export of a state with one node and one endpoint prints no line.\<close>

theorem export_failure_unreported_counterexample:
  "printed (snd (generate_graph False [0xAA] [0xAA]
      \<lparr>nodes = [0xAA \<mapsto> ''sensor1''], topics = [0xAA \<mapsto> [\<lparr>topic = ''imu'', is_pub = True\<rparr>]],
       running = True\<rparr>)) = []"
  by (simp add: generate_graph_def no_effects_def)

subsection \<open>The console command \<open>info\<close>\<close>

lemma info_loop_printed:
  "snd (info_loop arg items st out) =
     out @ concat (map (\<lambda>(p, nm). map info_line (endpoints_of st p))
                     (filter (\<lambda>(p, nm). nm = arg) items))"
proof (induction items arbitrary: st out)
  case Nil
  then show ?case by simp
next
  case (Cons it items)
  then show ?case
    by (cases it) (simp add: case_prod_unfold Let_def um_index_snd)
qed



lemma info_loop_no_match:
  "\<forall>(p, nm) \<in> set items. nm \<noteq> arg \<Longrightarrow> info_loop arg items st out = (st, out)"
  by (induction items arbitrary: st out) auto

lemma console_info_fits:
  "length arg < 64 \<Longrightarrow>
   console_info arg kn st =
     Inr (fst (info_loop arg (um_items kn (nodes st)) st []),
          \<lparr>printed = concat (map (\<lambda>(p, nm). map info_line (endpoints_of st p))
                        (filter (\<lambda>(p, nm). nm = arg) (um_items kn (nodes st)))),
           dotfile = None, shell = []\<rparr>)"
  using info_loop_printed [of arg "um_items kn (nodes st)" st "[]"]
  by (simp add: console_info_def case_prod_unfold Let_def)

lemma filter_at_most_one:
  "length (filter P xs) \<le> 1 \<Longrightarrow>
   filter P xs = (case find P xs of None \<Rightarrow> [] | Some x \<Rightarrow> [x])"
  by (induction xs) (auto split: if_splits)

text \<open>C6, as the code has it: for an argument that fits its buffer (fewer than 64
  bytes), \<open>info\<close> prints the records (role and topic) of every node whose name is the
  argument, node after node in visiting order, since the loop does not stop at the first
  match; it writes no file and runs no command. When no node has the name it prints
  nothing and leaves the state as it was. When at most one visited node has the name,
  what it prints is what the specification's reading gives.\<close>

theorem info_prints_every_match:
  assumes "length arg < 64"
  shows "(\<exists>state'. console_info arg kn state =
            Inr (state',
                 \<lparr>printed = concat (map (\<lambda>(p, nm). map info_line (endpoints_of state p))
                               (filter (\<lambda>(p, nm). nm = arg) (um_items kn (nodes state)))),
                  dotfile = None, shell = []\<rparr>)) \<and>
         ((\<forall>p. nodes state p \<noteq> Some arg) \<longrightarrow>
            console_info arg kn state = Inr (state, \<lparr>printed = [], dotfile = None, shell = []\<rparr>)) \<and>
         (length (filter (\<lambda>(p, nm). nm = arg) (um_items kn (nodes state))) \<le> 1 \<longrightarrow>
            (\<exists>state'. console_info arg kn state =
               Inr (state', \<lparr>printed = spec_info_first arg kn state, dotfile = None, shell = []\<rparr>)))"
proof -
  let ?its = "um_items kn (nodes state)"
  let ?ms = "filter (\<lambda>(p, nm). nm = arg) ?its"
  let ?out = "concat (map (\<lambda>(p, nm). map info_line (endpoints_of state p)) ?ms)"
  note fits = console_info_fits [OF assms, of kn state]
  have none: "console_info arg kn state = Inr (state, \<lparr>printed = [], dotfile = None, shell = []\<rparr>)"
    if n: "\<forall>p. nodes state p \<noteq> Some arg"
  proof -
    have a: "\<forall>(p, nm) \<in> set ?its. nm \<noteq> arg"
      using n by (auto simp: um_items_set)
    then have "?ms = []" by (auto simp: filter_empty_conv)
    then show ?thesis
      using fits info_loop_no_match [OF a, of state "[]"] by simp
  qed
  have one: "?out = spec_info_first arg kn state" if "length ?ms \<le> 1"
    using filter_at_most_one [OF that]
    by (auto simp: spec_info_first_def split: option.splits)
  from fits none one show ?thesis by auto
qed

theorem info_prints_every_match_witness:
  "length ''nobody'' < 64 \<and> length ''sensor1'' < 64 \<and>
   (\<forall>p. nodes \<lparr>nodes = [0xAA \<mapsto> ''sensor1''],
                 topics = [0xAA \<mapsto> [\<lparr>topic = ''imu'', is_pub = True\<rparr>]], running = True\<rparr> p
          \<noteq> Some ''nobody'') \<and>
   console_info ''nobody'' [0xAA]
       \<lparr>nodes = [0xAA \<mapsto> ''sensor1''],
        topics = [0xAA \<mapsto> [\<lparr>topic = ''imu'', is_pub = True\<rparr>]], running = True\<rparr> =
     Inr (\<lparr>nodes = [0xAA \<mapsto> ''sensor1''],
           topics = [0xAA \<mapsto> [\<lparr>topic = ''imu'', is_pub = True\<rparr>]], running = True\<rparr>,
          \<lparr>printed = [], dotfile = None, shell = []\<rparr>) \<and>
   console_info ''sensor1'' [0xAA]
       \<lparr>nodes = [0xAA \<mapsto> ''sensor1''],
        topics = [0xAA \<mapsto> [\<lparr>topic = ''imu'', is_pub = True\<rparr>]], running = True\<rparr> =
     Inr (\<lparr>nodes = [0xAA \<mapsto> ''sensor1''],
           topics = [0xAA \<mapsto> [\<lparr>topic = ''imu'', is_pub = True\<rparr>]], running = True\<rparr>,
          \<lparr>printed = [''  [PUB] imu'' @ [nl]], dotfile = None, shell = []\<rparr>)"
  using info_prints_every_match [of "''nobody''" "[0xAA]"
      "\<lparr>nodes = [0xAA \<mapsto> ''sensor1''],
        topics = [0xAA \<mapsto> [\<lparr>topic = ''imu'', is_pub = True\<rparr>]], running = True\<rparr>"]
    info_prints_every_match [of "''sensor1''" "[0xAA]"
      "\<lparr>nodes = [0xAA \<mapsto> ''sensor1''],
        topics = [0xAA \<mapsto> [\<lparr>topic = ''imu'', is_pub = True\<rparr>]], running = True\<rparr>"]
  by (simp add: console_info_def um_index_def info_line_def c_str_def)

text \<open>Two nodes named \<open>cam\<close>: \<open>info cam\<close> prints the records of both, the
  specification's reading those of the first.\<close>

theorem info_first_match_counterexample:
  "console_info ''cam'' [1, 2]
       \<lparr>nodes = [1 \<mapsto> ''cam'', 2 \<mapsto> ''cam''],
        topics = [1 \<mapsto> [\<lparr>topic = ''imu'', is_pub = True\<rparr>],
                  2 \<mapsto> [\<lparr>topic = ''cmd'', is_pub = False\<rparr>]], running = True\<rparr>
     = Inr (\<lparr>nodes = [1 \<mapsto> ''cam'', 2 \<mapsto> ''cam''],
             topics = [1 \<mapsto> [\<lparr>topic = ''imu'', is_pub = True\<rparr>],
                       2 \<mapsto> [\<lparr>topic = ''cmd'', is_pub = False\<rparr>]], running = True\<rparr>,
            \<lparr>printed = [''  [PUB] imu'' @ [nl], ''  [SUB] cmd'' @ [nl]],
             dotfile = None, shell = []\<rparr>) \<and>
   spec_info_first ''cam'' [1, 2]
       \<lparr>nodes = [1 \<mapsto> ''cam'', 2 \<mapsto> ''cam''],
        topics = [1 \<mapsto> [\<lparr>topic = ''imu'', is_pub = True\<rparr>],
                  2 \<mapsto> [\<lparr>topic = ''cmd'', is_pub = False\<rparr>]], running = True\<rparr>
     = [''  [PUB] imu'' @ [nl]]"
  by (simp add: console_info_def spec_info_first_def um_index_def endpoints_of_def
      info_line_def c_str_def)




end
